theory Spec2Isabelle
  imports Complex_Main
begin

section \<open>Python strings and POSIX paths\<close>





definition lower_char :: "char \<Rightarrow> char" where
  "lower_char c =
     (case map_of (zip ''ABCDEFGHIJKLMNOPQRSTUVWXYZ'' ''abcdefghijklmnopqrstuvwxyz'') c of
        Some d \<Rightarrow> d
      | None \<Rightarrow> c)"

definition lower :: "string \<Rightarrow> string" where
  "lower s = map lower_char s"

definition endswith :: "string \<Rightarrow> string \<Rightarrow> bool" where
  \<comment> \<open>\<open>s.endswith(t)\<close>\<close>
  "endswith s t = (length t \<le> length s \<and> drop (length s - length t) s = t)"

definition startswith :: "string \<Rightarrow> string \<Rightarrow> bool" where
  "startswith s t = (take (length t) s = t)"




definition basename :: "string \<Rightarrow> string" where
  \<comment> \<open>\<open>os.path.basename\<close>: what follows the last slash.\<close>
  "basename p = rev (takeWhile (\<lambda>c. c \<noteq> CHR ''/'') (rev p))"


definition splitext :: "string \<Rightarrow> string \<times> string" where
  \<comment> \<open>\<open>os.path.splitext\<close>: cut at the last dot of the last component, unless that
      component has only dots before it.\<close>
  "splitext p =
     (let b = basename p;
          d = take (length p - length b) p;
          stem = rev (tl (dropWhile (\<lambda>c. c \<noteq> CHR ''.'') (rev b)));
          ext = CHR ''.'' # rev (takeWhile (\<lambda>c. c \<noteq> CHR ''.'') (rev b))
      in if CHR ''.'' \<in> set b \<and> (\<exists>c \<in> set stem. c \<noteq> CHR ''.'')
         then (d @ stem, ext) else (p, []))"

definition join :: "string \<Rightarrow> string \<Rightarrow> string" where
  \<comment> \<open>\<open>os.path.join(a, b)\<close>\<close>
  "join a b =
     (if startswith b ''/'' then b
      else if a = [] \<or> endswith a ''/'' then a @ b
      else a @ ''/'' @ b)"

section \<open>Python numbers\<close>

text \<open>
  \<open>int(s)\<close> and \<open>int(s, 16)\<close> on ASCII text: surrounding white space, an optional sign,
  with base 16 an optional \<open>0x\<close>, then digits; single underscores may separate digits.
\<close>

definition digit_of :: "nat \<Rightarrow> char \<Rightarrow> nat option" where
  "digit_of b c =
     (case map_of (zip ''0123456789abcdefABCDEF'' ([0 ..< 16] @ [10 ..< 16])) c of
        Some d \<Rightarrow> (if d < b then Some d else None)
      | None \<Rightarrow> None)"

fun digits_value :: "nat \<Rightarrow> bool \<Rightarrow> bool \<Rightarrow> nat \<Rightarrow> string \<Rightarrow> nat option" where
  \<comment> \<open>\<open>us\<close>: an underscore may come next; \<open>fin\<close>: the literal may end here\<close>
  "digits_value b us fin acc [] = (if fin then Some acc else None)"
| "digits_value b us fin acc (c # cs) =
     (if c = CHR ''_'' then (if us then digits_value b False False acc cs else None)
      else (case digit_of b c of
              None \<Rightarrow> None
            | Some d \<Rightarrow> digits_value b True True (acc * b + d) cs))"




text \<open>\<open>str(n)\<close> of an integer, as an f-string prints it.\<close>

fun str_nat :: "nat \<Rightarrow> string" where
  "str_nat n =
     (if n < 10 then [''0123456789'' ! n]
      else str_nat (n div 10) @ [''0123456789'' ! (n mod 10)])"

declare str_nat.simps [simp del]

definition str_int :: "int \<Rightarrow> string" where
  "str_int i = (if i < 0 then CHR ''-'' # str_nat (nat (- i)) else str_nat (nat i))"

text \<open>
  Division of integers by \<open>/\<close> and the products with the scale are computed in double
  precision by the interpreter. They are modelled by exact rational arithmetic;
  \<open>round\<close> gives the nearest integer, a tie going to the even neighbour.
\<close>

definition py_round :: "rat \<Rightarrow> int" where
  "py_round q =
     (let f = \<lfloor>q\<rfloor>; d = q - of_int f
      in if d < 1 / 2 then f
         else if 1 / 2 < d then f + 1
         else if even f then f else f + 1)"

section \<open>Rasters\<close>

text \<open>The pixel formats a decoded file can have.\<close>

datatype mode =
  Mode1 | ModeL | ModeP | RGB | RGBA | CMYK | YCbCr | LAB | HSV | ModeI | ModeF | LA | PA

definition has_alpha :: "mode \<Rightarrow> bool" where
  "has_alpha m = (m \<in> {LA, PA, RGBA})"

fun bands :: "mode \<Rightarrow> nat" where
  "bands RGB = 3"
| "bands RGBA = 4"
| "bands CMYK = 4"
| "bands YCbCr = 3"
| "bands LAB = 3"
| "bands HSV = 3"
| "bands LA = 2"
| "bands PA = 2"
| "bands m = 1"

type_synonym pixel = "int list"

record raster =
  width :: int
  height :: int
  mode :: mode
  orientation :: "nat option"  \<comment> \<open>the EXIF orientation tag, when the file carries one\<close>
  pixel :: "int \<Rightarrow> int \<Rightarrow> pixel"  \<comment> \<open>channel values at column x, row y\<close>

section \<open>The file system and the decoder\<close>

datatype error = ValueError string | ZeroDivisionError string | OSError string


record world =
  isdir :: "string \<Rightarrow> bool"
  walk :: "string \<Rightarrow> (string \<times> string list) list"
    \<comment> \<open>\<open>os.walk(p)\<close>: each directory under \<open>p\<close> with the names of its files\<close>
  decode :: "string \<Rightarrow> error + raster"  \<comment> \<open>\<open>Image.open\<close>\<close>
  encode :: "string \<Rightarrow> raster \<Rightarrow> error option"  \<comment> \<open>\<open>img.save(path)\<close>: the error it raises, if any\<close>
  makedirs :: "string \<Rightarrow> error option"  \<comment> \<open>\<open>os.makedirs(d, exist_ok=True)\<close>\<close>

section \<open>The imaging library\<close>

text \<open>
  The calls the tools make into the imaging library, by their documented behaviour. The
  convolution of the Lanczos filter and the colour conversion of a pixel are the
  library's own numerical code: they are parameters of the model, so that every result
  below holds for whatever values they produce.
\<close>

record kernels =
  resample :: "raster \<Rightarrow> int \<Rightarrow> int \<Rightarrow> int \<Rightarrow> int \<Rightarrow> pixel"
    \<comment> \<open>the pixel at \<open>(x, y)\<close> of the image resampled to \<open>w\<close> by \<open>h\<close>\<close>
  to_rgb :: "raster \<Rightarrow> int \<Rightarrow> int \<Rightarrow> pixel"
    \<comment> \<open>the pixel at \<open>(x, y)\<close> converted to three channels\<close>

datatype transposition =
  FLIP_LEFT_RIGHT | FLIP_TOP_BOTTOM | ROTATE_90 | ROTATE_180 | ROTATE_270 | TRANSPOSE | TRANSVERSE

fun transpose_raster :: "transposition \<Rightarrow> raster \<Rightarrow> raster" where
  \<comment> \<open>\<open>im.transpose(method)\<close>\<close>
  "transpose_raster FLIP_LEFT_RIGHT im =
     im\<lparr>pixel := \<lambda>x y. pixel im (width im - 1 - x) y\<rparr>"
| "transpose_raster FLIP_TOP_BOTTOM im =
     im\<lparr>pixel := \<lambda>x y. pixel im x (height im - 1 - y)\<rparr>"
| "transpose_raster ROTATE_180 im =
     im\<lparr>pixel := \<lambda>x y. pixel im (width im - 1 - x) (height im - 1 - y)\<rparr>"
| "transpose_raster ROTATE_90 im =
     im\<lparr>width := height im, height := width im,
        pixel := \<lambda>x y. pixel im (width im - 1 - y) x\<rparr>"
| "transpose_raster ROTATE_270 im =
     im\<lparr>width := height im, height := width im,
        pixel := \<lambda>x y. pixel im y (height im - 1 - x)\<rparr>"
| "transpose_raster TRANSPOSE im =
     im\<lparr>width := height im, height := width im,
        pixel := \<lambda>x y. pixel im y x\<rparr>"
| "transpose_raster TRANSVERSE im =
     im\<lparr>width := height im, height := width im,
        pixel := \<lambda>x y. pixel im (width im - 1 - y) (height im - 1 - x)\<rparr>"

definition exif_method :: "nat \<Rightarrow> transposition option" where
  "exif_method n =
     map_of [(2, FLIP_LEFT_RIGHT), (3, ROTATE_180), (4, FLIP_TOP_BOTTOM), (5, TRANSPOSE),
             (6, ROTATE_270), (7, TRANSVERSE), (8, ROTATE_90)] n"

definition exif_transpose :: "raster \<Rightarrow> raster" where
  \<comment> \<open>\<open>ImageOps.exif_transpose\<close>: transposes by the orientation tag and removes the tag;
      an image with no tag, or a tag outside 2..8, is returned as it is.\<close>
  "exif_transpose im =
     (case orientation im of
        None \<Rightarrow> im
      | Some n \<Rightarrow>
          (case exif_method n of
             None \<Rightarrow> im
           | Some m \<Rightarrow> (transpose_raster m im)\<lparr>orientation := None\<rparr>))"

definition convert_rgb :: "kernels \<Rightarrow> raster \<Rightarrow> raster" where
  \<comment> \<open>\<open>im.convert("RGB")\<close>: a four-channel RGBA pixel loses its alpha value.\<close>
  "convert_rgb k im =
     (if mode im = RGB then im
      else if mode im = RGBA then im\<lparr>mode := RGB, pixel := \<lambda>x y. take 3 (pixel im x y)\<rparr>
      else im\<lparr>mode := RGB, pixel := to_rgb k im\<rparr>)"

definition resize :: "kernels \<Rightarrow> raster \<Rightarrow> int \<times> int \<Rightarrow> error + raster" where
  \<comment> \<open>\<open>im.resize(size, Image.LANCZOS)\<close>: a copy when the size is the image's own,
      an error when a side of the new size is below one pixel.\<close>
  "resize k im sz =
     (case sz of
        (w, h) \<Rightarrow>
          (if (width im, height im) = (w, h) then Inr im
           else if w < 1 \<or> h < 1 then Inl (ValueError ''height and width must be > 0'')
           else Inr (im\<lparr>width := w, height := h, pixel := resample k im w h\<rparr>)))"

definition clip8 :: "int \<Rightarrow> int" where
  "clip8 v = max 0 (min 255 v)"

definition ink :: "int \<times> int \<times> int \<Rightarrow> pixel" where
  \<comment> \<open>the pixel value a colour argument stands for in an RGB image\<close>
  "ink c = (case c of (r, g, b) \<Rightarrow> [clip8 r, clip8 g, clip8 b])"


definition new_rgb :: "int \<times> int \<Rightarrow> int \<times> int \<times> int \<Rightarrow> error + raster" where
  \<comment> \<open>\<open>Image.new("RGB", size, color)\<close>\<close>
  "new_rgb sz c =
     (case sz of
        (w, h) \<Rightarrow>
          (if w < 0 \<or> h < 0 then Inl (ValueError ''Width and height must be >= 0'')
           else Inr \<lparr>width = w, height = h, mode = RGB, orientation = None,
                     pixel = \<lambda>x y. ink c\<rparr>))"

definition paste :: "raster \<Rightarrow> raster \<Rightarrow> int \<times> int \<Rightarrow> raster" where
  \<comment> \<open>\<open>canvas.paste(im, (x, y))\<close> of an RGB or RGBA image on an RGB canvas: the
      rectangle of the image's size at \<open>(x, y)\<close> takes the image's colour channels.\<close>
  "paste canvas im pos =
     (case pos of
        (x, y) \<Rightarrow>
          canvas\<lparr>pixel := \<lambda>i j.
            if x \<le> i \<and> i < x + width im \<and> y \<le> j \<and> j < y + height im
            then (if mode im = RGBA then take 3 (pixel im (i - x) (j - y))
                  else pixel im (i - x) (j - y))
            else pixel canvas i j\<rparr>)"

definition crop :: "raster \<Rightarrow> int \<times> int \<times> int \<times> int \<Rightarrow> error + raster" where
  \<comment> \<open>\<open>im.crop((left, upper, right, lower))\<close>: the box may reach outside the image,
      where the result is zero-filled.\<close>
  "crop im box =
     (case box of
        (x0, y0, x1, y1) \<Rightarrow>
          (if x1 < x0 then Inl (ValueError ''Coordinate right is less than left'')
           else if y1 < y0 then Inl (ValueError ''Coordinate lower is less than upper'')
           else Inr (im\<lparr>width := x1 - x0, height := y1 - y0,
                        pixel := \<lambda>i j.
                          if 0 \<le> x0 + i \<and> x0 + i < width im \<and> 0 \<le> y0 + j \<and> y0 + j < height im
                          then pixel im (x0 + i) (y0 + j)
                          else replicate (bands (mode im)) 0\<rparr>)))"

definition rotate_90_expand :: "raster \<Rightarrow> raster" where
  \<comment> \<open>\<open>im.rotate(90, expand=True)\<close>\<close>
  "rotate_90_expand im = transpose_raster ROTATE_90 im"

section \<open>Screenshot resizer: layout strategies\<close>

definition normalise :: "kernels \<Rightarrow> raster \<Rightarrow> raster" where
  \<comment> \<open>the first two steps of each strategy: orientation, then colour representation\<close>
  "normalise k im0 =
     (let im = exif_transpose im0
      in if mode im \<noteq> RGB \<and> mode im \<noteq> RGBA then convert_rgb k im else im)"

definition fit_scale :: "int \<times> int \<Rightarrow> int \<times> int \<Rightarrow> rat" where
  \<comment> \<open>\<open>min(tw / ow, th / oh)\<close>\<close>
  "fit_scale target osize =
     (case (target, osize) of
        ((tw, th), (ow, oh)) \<Rightarrow> min (of_int tw / of_int ow) (of_int th / of_int oh))"

definition cover_scale :: "int \<times> int \<Rightarrow> int \<times> int \<Rightarrow> rat" where
  \<comment> \<open>\<open>max(tw / ow, th / oh)\<close>\<close>
  "cover_scale target osize =
     (case (target, osize) of
        ((tw, th), (ow, oh)) \<Rightarrow> max (of_int tw / of_int ow) (of_int th / of_int oh))"

definition scaled :: "int \<Rightarrow> rat \<Rightarrow> int" where
  \<comment> \<open>\<open>max(1, int(round(o * scale)))\<close>\<close>
  "scaled o' scale = max 1 (py_round (of_int o' * scale))"

definition fit_and_pad :: "kernels \<Rightarrow> raster \<Rightarrow> int \<times> int \<Rightarrow> int \<times> int \<times> int \<Rightarrow> error + raster" where
  "fit_and_pad k im0 target bg =
     (case target of
        (tw, th) \<Rightarrow>
          (let im = normalise k im0; ow = width im; oh = height im
           in if ow = 0 \<or> oh = 0 then Inl (ZeroDivisionError ''division by zero'')
              else
                (let scale = fit_scale (tw, th) (ow, oh);
                     nw = scaled ow scale;
                     nh = scaled oh scale
                 in case resize k im (nw, nh) of
                      Inl e \<Rightarrow> Inl e
                    | Inr resized \<Rightarrow>
                        (case new_rgb (tw, th) bg of
                           Inl e \<Rightarrow> Inl e
                         | Inr canvas \<Rightarrow>
                             Inr (paste canvas resized ((tw - nw) div 2, (th - nh) div 2))))))"

definition cover_and_crop :: "kernels \<Rightarrow> raster \<Rightarrow> int \<times> int \<Rightarrow> error + raster" where
  "cover_and_crop k im0 target =
     (case target of
        (tw, th) \<Rightarrow>
          (let im = normalise k im0; ow = width im; oh = height im
           in if ow = 0 \<or> oh = 0 then Inl (ZeroDivisionError ''division by zero'')
              else
                (let scale = cover_scale (tw, th) (ow, oh);
                     nw = scaled ow scale;
                     nh = scaled oh scale
                 in case resize k im (nw, nh) of
                      Inl e \<Rightarrow> Inl e
                    | Inr resized \<Rightarrow>
                        (let x = (nw - tw) div 2; y = (nh - th) div 2
                         in crop resized (x, y, x + tw, y + th)))))"

definition stretch_resize :: "kernels \<Rightarrow> raster \<Rightarrow> int \<times> int \<Rightarrow> error + raster" where
  "stretch_resize k im0 target = resize k (normalise k im0) target"

section \<open>Screenshot resizer: parsing the arguments\<close>




section \<open>Screenshot resizer: discovering inputs\<close>

definition image_suffixes :: "string list" where
  "image_suffixes = [''.png'', ''.jpg'', ''.jpeg'', ''.heic'', ''.webp'']"

definition is_image_name :: "string \<Rightarrow> bool" where
  \<comment> \<open>\<open>f.lower().endswith((".png", ".jpg", ".jpeg", ".heic", ".webp"))\<close>\<close>
  "is_image_name f = (\<exists>e \<in> set image_suffixes. endswith (lower f) e)"

definition walk_images :: "world \<Rightarrow> string \<Rightarrow> string list" where
  \<comment> \<open>the two inner loops of \<open>gather_inputs\<close>\<close>
  "walk_images w p =
     concat (map (\<lambda>(root, files). map (join root) (filter is_image_name files)) (walk w p))"

fun gather_inputs :: "world \<Rightarrow> string list \<Rightarrow> string list" where
  "gather_inputs w [] = []"
| "gather_inputs w (p # ps) =
     (if isdir w p then walk_images w p @ gather_inputs w ps
      else p # gather_inputs w ps)"

section \<open>Screenshot resizer: saving and the batch driver\<close>

definition variant_path :: "string \<Rightarrow> string \<Rightarrow> int \<times> int \<Rightarrow> string \<Rightarrow> string \<Rightarrow> string" where
  \<comment> \<open>the path \<open>save_variant\<close> writes to and returns\<close>
  "variant_path outdir base sz fmt suffix =
     (case sz of
        (w, h) \<Rightarrow>
          (let name = fst (splitext (basename base));
               fn = name @ ''_'' @ str_int w @ ''x'' @ str_int h @ suffix @ ''.'' @ lower fmt
           in join outdir fn))"

definition output_path :: "string \<Rightarrow> string \<Rightarrow> string \<Rightarrow> int \<times> int \<Rightarrow> bool \<Rightarrow> string" where
  \<comment> \<open>where the batch saves the variant of a source for a target: the base variant, or
      the landscape one with the sides swapped and the suffix\<close>
  "output_path outdir fmt path target landscape =
     (case target of
        (tw, th) \<Rightarrow>
          (if landscape then variant_path outdir path (th, tw) fmt ''_landscape''
           else variant_path outdir path (tw, th) fmt []))"

definition save_variant ::
  "kernels \<Rightarrow> world \<Rightarrow> raster \<Rightarrow> string \<Rightarrow> string \<Rightarrow> int \<times> int \<Rightarrow> string \<Rightarrow> string
     \<Rightarrow> error + (string \<times> raster)" where
  \<comment> \<open>returns the path together with the raster that was encoded there\<close>
  "save_variant k w img outdir base sz fmt suffix =
     (let path = variant_path outdir base sz fmt suffix;
          img' = (if (lower fmt = ''jpg'' \<or> lower fmt = ''jpeg'') \<and> mode img = RGBA
                  then convert_rgb k img else img)
      in case encode w path img' of
           Some e \<Rightarrow> Inl e
         | None \<Rightarrow> Inr (path, img'))"

record args =
  arg_input :: "string list"
  arg_outdir :: string
  arg_sizes :: string
  arg_mode :: string
  arg_bg :: string
  arg_format :: string
  arg_landscape :: bool

text \<open>
  What a run does, in order: the output directory is created, an input is opened, a
  layout strategy is called for an input and a target, a raster is written to a path.
\<close>

datatype event =
  Mkdir string | Open string | Layout string "int \<times> int" | Save string raster



text \<open>
  A step of the batch yields what it did before it stopped (events and printed lines)
  and the exception that stopped it, if any.
\<close>

type_synonym effects = "event list \<times> string list \<times> error option"

definition layout ::
  "kernels \<Rightarrow> string \<Rightarrow> raster \<Rightarrow> int \<times> int \<Rightarrow> int \<times> int \<times> int \<Rightarrow> error + raster" where
  "layout k m im target bg =
     (if m = ''pad'' then fit_and_pad k im target bg
      else if m = ''crop'' then cover_and_crop k im target
      else stretch_resize k im target)"

definition one_target ::
  "kernels \<Rightarrow> world \<Rightarrow> args \<Rightarrow> int \<times> int \<times> int \<Rightarrow> string \<Rightarrow> raster \<Rightarrow> int \<times> int \<Rightarrow> effects" where
  \<comment> \<open>the body of the loop over the targets\<close>
  "one_target k w a bg path im target =
     (case target of
        (tw, th) \<Rightarrow>
          (case layout k (arg_mode a) im (tw, th) bg of
             Inl e \<Rightarrow> ([Layout path (tw, th)], [], Some e)
           | Inr out_im \<Rightarrow>
               (case save_variant k w out_im (arg_outdir a) path (tw, th) (arg_format a) [] of
                  Inl e \<Rightarrow> ([Layout path (tw, th)], [], Some e)
                | Inr (saved, r) \<Rightarrow>
                    (if arg_landscape a
                     then
                       (let out_land = rotate_90_expand out_im
                        in case save_variant k w out_land (arg_outdir a) path (th, tw)
                                  (arg_format a) ''_landscape'' of
                             Inl e \<Rightarrow>
                               ([Layout path (tw, th), Save saved r], [''Wrote '' @ saved], Some e)
                           | Inr (saved_l, rl) \<Rightarrow>
                               ([Layout path (tw, th), Save saved r, Save saved_l rl],
                                [''Wrote '' @ saved, ''Wrote '' @ saved_l], None))
                     else ([Layout path (tw, th), Save saved r], [''Wrote '' @ saved], None)))))"







section \<open>Icon variant generator\<close>



section \<open>Sample data\<close>

definition nearest_kernels :: kernels where
  \<comment> \<open>nearest-neighbour sampling and a grey-to-colour conversion, to run the model\<close>
  "nearest_kernels =
     \<lparr>resample = (\<lambda>im w h x y. pixel im ((x * width im) div w) ((y * height im) div h)),
      to_rgb = (\<lambda>im x y. take 3 (pixel im x y @ pixel im x y @ pixel im x y))\<rparr>"

definition screenshot :: raster where
  "screenshot =
     \<lparr>width = 1179, height = 2556, mode = RGB, orientation = None,
      pixel = (\<lambda>x y. [x mod 256, y mod 256, 7])\<rparr>"

definition banner :: raster where
  \<comment> \<open>a wide translucent image stored sideways\<close>
  "banner =
     \<lparr>width = 100, height = 400, mode = RGBA, orientation = Some 6,
      pixel = (\<lambda>x y. [x mod 256, y mod 256, 7, 128])\<rparr>"

definition icon :: raster where
  "icon =
     \<lparr>width = 180, height = 181, mode = RGBA, orientation = None,
      pixel = (\<lambda>x y. [x, y, 0, 255])\<rparr>"

definition dot :: raster where
  "dot =
     \<lparr>width = 2, height = 2, mode = RGB, orientation = None,
      pixel = (\<lambda>x y. [0, 0, 0])\<rparr>"

definition sample_world :: world where
  "sample_world =
     \<lparr>isdir = (\<lambda>p. p = ''shots''),
      walk = (\<lambda>p. if p = ''shots'' then [(''shots'', [''a.png'', ''b.txt''])] else []),
      decode = (\<lambda>p. if p = ''shots/a.png'' then Inr screenshot
                     else if p = ''art/icon@3x.png'' then Inr icon
                     else if p = ''art/dot.png'' then Inr dot
                     else Inl (OSError ''cannot identify image file'')),
      encode = (\<lambda>p r. None),
      makedirs = (\<lambda>p. if p = ''/proc/out'' then Some (OSError ''Permission denied'') else None)\<rparr>"

definition sample_args :: args where
  "sample_args =
     \<lparr>arg_input = [''broken.png'', ''shots''], arg_outdir = ''./out_6p7'',
      arg_sizes = ''1290x2796,1320x2868'', arg_mode = ''pad'', arg_bg = ''#000000'',
      arg_format = ''png'', arg_landscape = True\<rparr>"

section \<open>Rounding, scaling and the library calls\<close>




lemma scaled_ge_1: "1 \<le> scaled a s"
  by (simp add: scaled_def)











lemma transpose_raster_size:
  "(width (transpose_raster m im), height (transpose_raster m im)) \<in> {(width im, height im), (height im, width im)}"
  by (cases m) simp_all

lemma transpose_raster_mode: "mode (transpose_raster m im) = mode im"
  by (cases m) simp_all

lemma exif_transpose_size:
  "(width (exif_transpose im), height (exif_transpose im)) \<in> {(width im, height im), (height im, width im)}"
  using transpose_raster_size [of _ im]
  by (auto simp: exif_transpose_def split: option.splits)

lemma exif_transpose_mode: "mode (exif_transpose im) = mode im"
  by (simp add: exif_transpose_def transpose_raster_mode split: option.splits)

lemma exif_transpose_idem: "exif_transpose (exif_transpose im) = exif_transpose im"
  by (simp add: exif_transpose_def split: option.splits)

lemma convert_rgb_size: "width (convert_rgb k im) = width im" "height (convert_rgb k im) = height im"
  by (simp_all add: convert_rgb_def)

lemma normalise_size:
  "(width (normalise k im), height (normalise k im)) \<in> {(width im, height im), (height im, width im)}"
  using exif_transpose_size [of im] by (simp add: normalise_def Let_def convert_rgb_size)

lemma normalise_pos:
  "1 \<le> width im \<Longrightarrow> 1 \<le> height im \<Longrightarrow> 1 \<le> width (normalise k im) \<and> 1 \<le> height (normalise k im)"
  using normalise_size [of k im] by auto

lemma normalise_mode:
  "mode (normalise k im) = (if mode im = RGBA then RGBA else RGB)"
  by (simp add: normalise_def Let_def exif_transpose_mode convert_rgb_def)

lemma normalise_exif: "normalise k (exif_transpose im) = normalise k im"
  by (simp add: normalise_def exif_transpose_idem)

lemma resize_ok:
  "1 \<le> w \<Longrightarrow> 1 \<le> h \<Longrightarrow>
   \<exists>r. resize k im (w, h) = Inr r \<and> width r = w \<and> height r = h \<and> mode r = mode im"
  by (auto simp: resize_def)

lemma resize_size: "resize k im (w, h) = Inr r \<Longrightarrow> width r = w \<and> height r = h \<and> mode r = mode im"
  by (auto simp: resize_def split: if_splits)

lemma paste_size: "width (paste c im p) = width c" "height (paste c im p) = height c" "mode (paste c im p) = mode c"
  by (cases p; simp add: paste_def)+

lemma fit_and_pad_size:
  "fit_and_pad k im (tw, th) bg = Inr r \<Longrightarrow> width r = tw \<and> height r = th \<and> mode r = RGB"
  by (auto simp: fit_and_pad_def Let_def new_rgb_def paste_size split: if_splits sum.splits)

lemma crop_size:
  "crop im (x0, y0, x1, y1) = Inr r \<Longrightarrow> width r = x1 - x0 \<and> height r = y1 - y0 \<and> mode r = mode im"
  by (auto simp: crop_def split: if_splits)

lemma cover_and_crop_size:
  "cover_and_crop k im (tw, th) = Inr r \<Longrightarrow>
   width r = tw \<and> height r = th \<and> mode r = mode (normalise k im)"
  by (auto simp: cover_and_crop_def Let_def split: if_splits sum.splits
           dest!: crop_size resize_size)

lemma stretch_resize_size:
  "stretch_resize k im (tw, th) = Inr r \<Longrightarrow>
   width r = tw \<and> height r = th \<and> mode r = mode (normalise k im)"
  by (auto simp: stretch_resize_def dest!: resize_size)

lemma fit_and_pad_ok:
  assumes "1 \<le> width im" "1 \<le> height im" "0 \<le> tw" "0 \<le> th"
  shows "\<exists>r. fit_and_pad k im (tw, th) bg = Inr r"
proof -
  let ?src = "normalise k im"
  from assms normalise_pos [of im k] have p: "1 \<le> width ?src" "1 \<le> height ?src" by auto
  obtain rs where rs: "resize k ?src (scaled (width ?src) (fit_scale (tw, th) (width ?src, height ?src)),
      scaled (height ?src) (fit_scale (tw, th) (width ?src, height ?src))) = Inr rs"
    using resize_ok [OF scaled_ge_1 scaled_ge_1] by blast
  with p assms show ?thesis
    by (simp add: fit_and_pad_def Let_def new_rgb_def)
qed

lemma cover_and_crop_ok:
  assumes "1 \<le> width im" "1 \<le> height im" "0 \<le> tw" "0 \<le> th"
  shows "\<exists>r. cover_and_crop k im (tw, th) = Inr r"
proof -
  let ?src = "normalise k im"
  from assms normalise_pos [of im k] have p: "1 \<le> width ?src" "1 \<le> height ?src" by auto
  obtain rs where rs: "resize k ?src (scaled (width ?src) (cover_scale (tw, th) (width ?src, height ?src)),
      scaled (height ?src) (cover_scale (tw, th) (width ?src, height ?src))) = Inr rs"
    using resize_ok [OF scaled_ge_1 scaled_ge_1] by blast
  with p assms show ?thesis
    by (simp add: cover_and_crop_def Let_def crop_def)
qed

lemma stretch_resize_ok:
  assumes "1 \<le> tw" "1 \<le> th"
  shows "\<exists>r. stretch_resize k im (tw, th) = Inr r"
  using resize_ok [OF assms] by (auto simp: stretch_resize_def)





lemma decimal_char: "d < 10 \<Longrightarrow> ''0123456789'' ! d \<in> set ''0123456789''"
  by (rule nth_mem) simp

lemma decimal_digit_of: "d < 10 \<Longrightarrow> digit_of 10 (''0123456789'' ! d) = Some d"
proof -
  assume "d < 10"
  then have "d \<in> set [0 ..< 10]" by simp
  moreover have "\<forall>d \<in> set [0 ..< 10]. digit_of 10 (''0123456789'' ! d) = Some d"
    by code_simp
  ultimately show ?thesis by blast
qed

lemma str_nat_chars: "set (str_nat n) \<subseteq> set ''0123456789''"
proof (induction n rule: str_nat.induct)
  case (1 n)
  show ?case
  proof (cases "n < 10")
    case True
    then show ?thesis using decimal_char [of n] by (subst str_nat.simps) simp
  next
    case False
    with 1 decimal_char [of "n mod 10"] show ?thesis
      by (subst str_nat.simps) simp
  qed
qed

lemma str_nat_nonempty: "str_nat n \<noteq> []"
  by (subst str_nat.simps) simp

lemma str_nat_last: "last (str_nat n) \<in> set ''0123456789''"
  using str_nat_chars [of n] str_nat_nonempty [of n] last_in_set by blast

lemma str_nat_value:
  "digits_value 10 us fin acc (str_nat n @ rest) =
   digits_value 10 True True (acc * 10 ^ length (str_nat n) + n) rest"
proof (induction n arbitrary: us fin acc rest rule: str_nat.induct)
  case (1 n)
  show ?case
  proof (cases "n < 10")
    case True
    then have c: "''0123456789'' ! n \<noteq> CHR ''_''" using decimal_char [of n] by auto
    from True have s: "str_nat n = [''0123456789'' ! n]" by (subst str_nat.simps) simp
    have d: "digit_of 10 (''0123456789'' ! n) = Some n" using True by (rule decimal_digit_of)
    show ?thesis unfolding s using c d by simp
  next
    case False
    let ?c = "''0123456789'' ! (n mod 10)"
    have c: "?c \<noteq> CHR ''_''" using decimal_char [of "n mod 10"] by auto
    have d: "digit_of 10 ?c = Some (n mod 10)" by (rule decimal_digit_of) simp
    from False have s: "str_nat n = str_nat (n div 10) @ [?c]" by (subst str_nat.simps) simp
    have l: "length (str_nat n) = Suc (length (str_nat (n div 10)))" by (subst s) simp
    have "digits_value 10 us fin acc (str_nat n @ rest)
        = digits_value 10 us fin acc (str_nat (n div 10) @ ?c # rest)" by (subst s) simp
    also have "\<dots> = digits_value 10 True True (acc * 10 ^ length (str_nat (n div 10)) + n div 10) (?c # rest)"
      by (rule 1 [OF False])
    also have "\<dots> = digits_value 10 True True
        ((acc * 10 ^ length (str_nat (n div 10)) + n div 10) * 10 + n mod 10) rest"
      using c d by simp
    also have "(acc * 10 ^ length (str_nat (n div 10)) + n div 10) * 10 + n mod 10
        = acc * 10 ^ length (str_nat n) + n"
      unfolding l by (simp add: algebra_simps)
    finally show ?thesis .
  qed
qed

lemma str_nat_parse: "digits_value 10 False False 0 (str_nat k) = Some k"
proof -
  have "digits_value 10 False False 0 (str_nat k @ [])
      = digits_value 10 True True (0 * 10 ^ length (str_nat k) + k) []"
    by (rule str_nat_value)
  also have "\<dots> = Some (0 * 10 ^ length (str_nat k) + k)" by (simp only: digits_value.simps if_True)
  also have "0 * 10 ^ length (str_nat k) + k = k" by simp
  finally show ?thesis by (simp only: append_Nil2)
qed

lemma str_nat_inj: "str_nat m = str_nat n \<Longrightarrow> m = n"
proof -
  assume h: "str_nat m = str_nat n"
  have "Some m = digits_value 10 False False 0 (str_nat m)" by (rule str_nat_parse [symmetric])
  also from h have "\<dots> = digits_value 10 False False 0 (str_nat n)" by (rule arg_cong)
  also have "\<dots> = Some n" by (rule str_nat_parse)
  finally show ?thesis by (rule option.inject [THEN iffD1])
qed

lemma str_int_inj: "str_int i = str_int j \<Longrightarrow> i = j"
proof -
  assume h: "str_int i = str_int j"
  have nm: "\<And>n. hd (str_nat n) \<noteq> CHR ''-''"
  proof -
    fix n
    have "hd (str_nat n) \<in> set (str_nat n)" using str_nat_nonempty by simp
    with str_nat_chars [of n] show "hd (str_nat n) \<noteq> CHR ''-''" by auto
  qed
  show ?thesis
  proof (cases "i < 0"; cases "j < 0")
    assume "i < 0" "j < 0"
    with h have "nat (- i) = nat (- j)" by (auto simp: str_int_def dest: str_nat_inj)
    with \<open>i < 0\<close> \<open>j < 0\<close> show ?thesis by simp
  next
    assume "i < 0" "\<not> j < 0"
    with h have "CHR ''-'' # str_nat (nat (- i)) = str_nat (nat j)" by (simp add: str_int_def)
    then have "hd (CHR ''-'' # str_nat (nat (- i))) = hd (str_nat (nat j))" by (rule arg_cong)
    then have "hd (str_nat (nat j)) = CHR ''-''" by simp
    with nm show ?thesis by blast
  next
    assume "\<not> i < 0" "j < 0"
    with h have "CHR ''-'' # str_nat (nat (- j)) = str_nat (nat i)" by (simp add: str_int_def)
    then have "hd (CHR ''-'' # str_nat (nat (- j))) = hd (str_nat (nat i))" by (rule arg_cong)
    then have "hd (str_nat (nat i)) = CHR ''-''" by simp
    with nm show ?thesis by blast
  next
    assume "\<not> i < 0" "\<not> j < 0"
    with h have "nat i = nat j" by (auto simp: str_int_def dest: str_nat_inj)
    with \<open>\<not> i < 0\<close> \<open>\<not> j < 0\<close> show ?thesis by simp
  qed
qed

lemma str_int_cases:
  "c \<in> set (str_int i) \<Longrightarrow> c = CHR ''-'' \<or> c \<in> set ''0123456789''"
proof -
  assume "c \<in> set (str_int i)"
  then have "c = CHR ''-'' \<or> c \<in> set (str_nat (nat (- i))) \<or> c \<in> set (str_nat (nat i))"
    unfolding str_int_def by (cases "i < 0") auto
  with str_nat_chars [of "nat i"] str_nat_chars [of "nat (- i)"] show ?thesis by blast
qed

lemma str_int_no_x: "CHR ''x'' \<notin> set (str_int i)"
proof
  assume "CHR ''x'' \<in> set (str_int i)"
  then have "CHR ''x'' = CHR ''-'' \<or> CHR ''x'' \<in> set ''0123456789''" by (rule str_int_cases)
  then show False by simp
qed

lemma str_int_no_underscore: "CHR ''_'' \<notin> set (str_int i)"
proof
  assume "CHR ''_'' \<in> set (str_int i)"
  then have "CHR ''_'' = CHR ''-'' \<or> CHR ''_'' \<in> set ''0123456789''" by (rule str_int_cases)
  then show False by simp
qed

lemma str_int_nonempty: "str_int i \<noteq> []"
  by (simp add: str_int_def str_nat_nonempty)

lemma str_int_last: "last (str_int i) \<in> set ''0123456789''"
  using str_nat_last [of "nat i"] str_nat_last [of "nat (- i)"] str_nat_nonempty
  by (simp add: str_int_def)

lemma str_int_last_not_e: "last (str_int i) \<noteq> CHR ''e''"
proof
  assume "last (str_int i) = CHR ''e''"
  with str_int_last [of i] have "CHR ''e'' \<in> set ''0123456789''" by simp
  then show False by simp
qed

lemma sep_unique:
  assumes "xs @ c # u = ys @ c # v" "c \<notin> set u" "c \<notin> set v"
  shows "xs = ys \<and> u = v"
proof -
  have t: "\<And>zs w. c \<notin> set w \<Longrightarrow> takeWhile (\<lambda>x. x \<noteq> c) (rev (zs @ c # w)) = rev w"
  proof -
    fix zs w
    assume "c \<notin> set w"
    then have "takeWhile (\<lambda>x. x \<noteq> c) (rev w @ c # rev zs)
        = rev w @ takeWhile (\<lambda>x. x \<noteq> c) (c # rev zs)"
      by (intro takeWhile_append2) auto
    then show "takeWhile (\<lambda>x. x \<noteq> c) (rev (zs @ c # w)) = rev w" by simp
  qed
  have "takeWhile (\<lambda>x. x \<noteq> c) (rev (xs @ c # u)) = rev u"
    "takeWhile (\<lambda>x. x \<noteq> c) (rev (ys @ c # v)) = rev v"
    using assms(2,3) t by blast+
  with assms(1) have "u = v" by (metis rev_is_rev_conv)
  with assms(1) show ?thesis by simp
qed


lemma basename_no_slash: "CHR ''/'' \<notin> set (basename p)"
proof
  assume "CHR ''/'' \<in> set (basename p)"
  then have "CHR ''/'' \<in> set (takeWhile (\<lambda>c. c \<noteq> CHR ''/'') (rev p))"
    by (simp add: basename_def)
  then show False by (auto dest: set_takeWhileD)
qed

lemma basename_idem: "basename (basename p) = basename p"
proof -
  have "\<forall>c \<in> set (rev (basename p)). c \<noteq> CHR ''/''" using basename_no_slash [of p] by auto
  then have t: "takeWhile (\<lambda>c. c \<noteq> CHR ''/'') (rev (basename p)) = rev (basename p)"
    by (rule takeWhile_eq_all_conv [THEN iffD2])
  show ?thesis by (subst basename_def) (simp only: t rev_rev_ident)
qed

lemma stem_subset: "set (fst (splitext (basename p))) \<subseteq> set (basename p)"
proof -
  let ?b = "basename p"
  have "set (rev (tl (dropWhile (\<lambda>c. c \<noteq> CHR ''.'') (rev ?b)))) \<subseteq> set ?b"
  proof
    fix x
    assume "x \<in> set (rev (tl (dropWhile (\<lambda>c. c \<noteq> CHR ''.'') (rev ?b))))"
    then have "x \<in> set (tl (dropWhile (\<lambda>c. c \<noteq> CHR ''.'') (rev ?b)))" by simp
    then have "x \<in> set (dropWhile (\<lambda>c. c \<noteq> CHR ''.'') (rev ?b))" by (cases "dropWhile (\<lambda>c. c \<noteq> CHR ''.'') (rev (basename p))") auto
    then have "x \<in> set (rev ?b)" by (rule set_dropWhileD)
    then show "x \<in> set ?b" by simp
  qed
  then show ?thesis by (auto simp: splitext_def Let_def basename_idem)
qed

lemma stem_no_slash: "CHR ''/'' \<notin> set (fst (splitext (basename p)))"
  using stem_subset [of p] basename_no_slash [of p] by blast

lemma join_inj:
  "\<not> startswith a ''/'' \<Longrightarrow> \<not> startswith b ''/'' \<Longrightarrow> join d a = join d b \<Longrightarrow> a = b"
  by (auto simp: join_def split: if_splits)

lemma not_startswith_slash: "CHR ''/'' \<notin> set n \<Longrightarrow> \<not> startswith (n @ CHR ''_'' # r) ''/''"
  by (cases n) (auto simp: startswith_def)

lemma variant_name_inj:
  assumes eq: "n1 @ ''_'' @ str_int w1 @ ''x'' @ str_int h1 @ s1 @ ''.'' @ f
             = n2 @ ''_'' @ str_int w2 @ ''x'' @ str_int h2 @ s2 @ ''.'' @ f"
    and s1: "s1 = [] \<or> s1 = ''_landscape''"
    and s2: "s2 = [] \<or> s2 = ''_landscape''"
  shows "n1 = n2 \<and> w1 = w2 \<and> h1 = h2 \<and> s1 = s2"
proof -
  let ?A1 = "n1 @ CHR ''_'' # str_int w1 @ CHR ''x'' # str_int h1"
  let ?A2 = "n2 @ CHR ''_'' # str_int w2 @ CHR ''x'' # str_int h2"
  have "(?A1 @ s1) @ ''.'' @ f = (?A2 @ s2) @ ''.'' @ f" using eq by simp
  then have e: "?A1 @ s1 = ?A2 @ s2" by (simp only: append_same_eq)
  have l1: "last ?A1 = last (str_int h1)" "last ?A2 = last (str_int h2)"
    using str_int_nonempty by simp_all
  have s: "s1 = s2"
  proof (rule ccontr)
    assume ne: "s1 \<noteq> s2"
    from s1 s2 ne consider "s1 = []" "s2 = ''_landscape''" | "s1 = ''_landscape''" "s2 = []"
      by blast
    then show False
    proof cases
      case 1
      with e have "last ?A1 = last (?A2 @ ''_landscape'')" by simp
      then have "last (str_int h1) = CHR ''e''" using l1(1) by simp
      with str_int_last_not_e show False by blast
    next
      case 2
      with e have "last (?A1 @ ''_landscape'') = last ?A2" by simp
      then have "last (str_int h2) = CHR ''e''" using l1(2) by simp
      with str_int_last_not_e show False by blast
    qed
  qed
  with e have "?A1 = ?A2" by simp
  then have "(n1 @ CHR ''_'' # str_int w1) @ CHR ''x'' # str_int h1
           = (n2 @ CHR ''_'' # str_int w2) @ CHR ''x'' # str_int h2" by simp
  from sep_unique [OF this str_int_no_x str_int_no_x]
  have a: "n1 @ CHR ''_'' # str_int w1 = n2 @ CHR ''_'' # str_int w2" and b: "str_int h1 = str_int h2"
    by simp_all
  from sep_unique [OF a str_int_no_underscore str_int_no_underscore]
  have c: "n1 = n2" and d: "str_int w1 = str_int w2" by simp_all
  from b d c s show ?thesis by (auto dest: str_int_inj)
qed

lemma variant_path_inj:
  assumes eq: "variant_path outdir b1 (w1, h1) fmt s1 = variant_path outdir b2 (w2, h2) fmt s2"
    and s1: "s1 = [] \<or> s1 = ''_landscape''"
    and s2: "s2 = [] \<or> s2 = ''_landscape''"
  shows "fst (splitext (basename b1)) = fst (splitext (basename b2)) \<and> w1 = w2 \<and> h1 = h2 \<and> s1 = s2"
proof -
  let ?n1 = "fst (splitext (basename b1))"
  let ?n2 = "fst (splitext (basename b2))"
  let ?f1 = "?n1 @ ''_'' @ str_int w1 @ ''x'' @ str_int h1 @ s1 @ ''.'' @ lower fmt"
  let ?f2 = "?n2 @ ''_'' @ str_int w2 @ ''x'' @ str_int h2 @ s2 @ ''.'' @ lower fmt"
  have ns: "\<not> startswith ?f1 ''/''" "\<not> startswith ?f2 ''/''"
    using not_startswith_slash [OF stem_no_slash] by simp_all
  from eq have "join outdir ?f1 = join outdir ?f2" by (simp add: variant_path_def Let_def)
  from join_inj [OF ns this] variant_name_inj [OF _ s1 s2] show ?thesis by blast
qed

lemma layout_size:
  "layout k m im (tw, th) bg = Inr r \<Longrightarrow> width r = tw \<and> height r = th"
  by (auto simp: layout_def split: if_splits
           dest: fit_and_pad_size cover_and_crop_size stretch_resize_size)

lemma save_variant_ok:
  "\<forall>p r. encode w p r = None \<Longrightarrow>
   save_variant k w img outdir base sz fmt suffix =
     Inr (variant_path outdir base sz fmt suffix,
          if (lower fmt = ''jpg'' \<or> lower fmt = ''jpeg'') \<and> mode img = RGBA
          then convert_rgb k img else img)"
  by (simp add: save_variant_def Let_def)

lemma rotate_90_expand_size:
  "width (rotate_90_expand im) = height im" "height (rotate_90_expand im) = width im"
  by (simp_all add: rotate_90_expand_def)



















section \<open>Layout strategies: size of the result\<close>



section \<open>Pad: fit and letterbox\<close>



section \<open>Crop: cover and centre\<close>



section \<open>Icon variant generator: the files written\<close>




section \<open>Exit codes and failures of the screenshot resizer\<close>




section \<open>Names of the saved variants\<close>

text \<open>
  C6, as the code has it. Within one run (one output directory, one format), the path a
  variant is saved to is determined by the stem of the source's file name (base name
  without directory and extension), the target \<open>(W, H)\<close> and the orientation, and it
  determines them: two variants are saved to the same path exactly when their sources
  have the same stem and their targets and orientations are equal.
\<close>

theorem output_path_unique:
  "output_path outdir fmt src1 t1 o1 = output_path outdir fmt src2 t2 o2
   \<longleftrightarrow> fst (splitext (basename src1)) = fst (splitext (basename src2)) \<and> t1 = t2 \<and> o1 = o2"
proof
  assume eq: "output_path outdir fmt src1 t1 o1 = output_path outdir fmt src2 t2 o2"
  obtain a1 b1 a2 b2 where t: "t1 = (a1, b1)" "t2 = (a2, b2)" by (cases t1; cases t2) auto
  show "fst (splitext (basename src1)) = fst (splitext (basename src2)) \<and> t1 = t2 \<and> o1 = o2"
  proof (cases o1; cases o2)
    assume o: "o1" "o2"
    with eq t have "variant_path outdir src1 (b1, a1) fmt ''_landscape''
        = variant_path outdir src2 (b2, a2) fmt ''_landscape''" by (simp add: output_path_def)
    from variant_path_inj [OF this] o t show ?thesis by simp
  next
    assume o: "o1" "\<not> o2"
    with eq t have "variant_path outdir src1 (b1, a1) fmt ''_landscape''
        = variant_path outdir src2 (a2, b2) fmt []" by (simp add: output_path_def)
    from variant_path_inj [OF this] show ?thesis by simp
  next
    assume o: "\<not> o1" "o2"
    with eq t have "variant_path outdir src1 (a1, b1) fmt []
        = variant_path outdir src2 (b2, a2) fmt ''_landscape''" by (simp add: output_path_def)
    from variant_path_inj [OF this] show ?thesis by simp
  next
    assume o: "\<not> o1" "\<not> o2"
    with eq t have "variant_path outdir src1 (a1, b1) fmt []
        = variant_path outdir src2 (a2, b2) fmt []" by (simp add: output_path_def)
    from variant_path_inj [OF this] o t show ?thesis by simp
  qed
next
  assume "fst (splitext (basename src1)) = fst (splitext (basename src2)) \<and> t1 = t2 \<and> o1 = o2"
  then show "output_path outdir fmt src1 t1 o1 = output_path outdir fmt src2 t2 o2"
    by (cases t2) (simp add: output_path_def variant_path_def)
qed

theorem output_path_unique_witness:
  "output_path ''out'' ''png'' ''shots/a.png'' (1290, 2796) False = ''out/a_1290x2796.png''
   \<and> output_path ''out'' ''png'' ''shots/a.png'' (1290, 2796) True = ''out/a_2796x1290_landscape.png''
   \<and> output_path ''out'' ''png'' ''shots/a.png'' (2796, 1290) False = ''out/a_2796x1290.png''
   \<and> output_path ''out'' ''png'' ''shots/a.png'' (1290, 2796) True
       \<noteq> output_path ''out'' ''png'' ''shots/a.png'' (2796, 1290) False"
proof -
  have a: "output_path ''out'' ''png'' ''shots/a.png'' (1290, 2796) False = ''out/a_1290x2796.png''"
    by code_simp
  have b: "output_path ''out'' ''png'' ''shots/a.png'' (1290, 2796) True
      = ''out/a_2796x1290_landscape.png''" by code_simp
  have c: "output_path ''out'' ''png'' ''shots/a.png'' (2796, 1290) False = ''out/a_2796x1290.png''"
    by code_simp
  from output_path_unique [of "''out''" "''png''" "''shots/a.png''" "(1290, 2796)" True
      "''shots/a.png''" "(2796, 1290)" False] a b c
  show ?thesis by simp
qed

text \<open>
  C6 as stated fails: two different source files with the same stem, here a PNG and a
  JPEG of the same name, are saved to the same path for the same target and orientation.
\<close>

theorem output_path_collision:
  "(''shots/a.png'', (1290 :: int, 2796 :: int), False) \<noteq> (''shots/a.jpg'', (1290, 2796), False)
   \<and> output_path ''out'' ''png'' ''shots/a.png'' (1290, 2796) False
     = output_path ''out'' ''png'' ''shots/a.jpg'' (1290, 2796) False"
  by code_simp

section \<open>Landscape variants\<close>

text \<open>
  C7. With \<open>--landscape\<close> set, when the strategy returns the base raster for a target
  \<open>(W, H)\<close> and the files can be written, the loop body saves the base variant and then
  exactly one more: its raster is the base raster rotated by 90 degrees with expansion
  (converted to RGB first when the format is JPEG and the raster is RGBA), so it is \<open>H\<close>
  wide and \<open>W\<close> high where the base is \<open>W\<close> wide and \<open>H\<close> high; and its file name is the
  stem followed by \<open>_HxW_landscape\<close> and the format.
\<close>

theorem landscape_variant:
  assumes "arg_landscape a"
    and "layout k (arg_mode a) im (tw, th) bg = Inr out_im"
    and "\<forall>p r. encode w p r = None"
  shows "\<exists>base land.
           one_target k w a bg path im (tw, th) =
             ([Layout path (tw, th),
               Save (output_path (arg_outdir a) (arg_format a) path (tw, th) False) base,
               Save (output_path (arg_outdir a) (arg_format a) path (tw, th) True) land],
              [''Wrote '' @ output_path (arg_outdir a) (arg_format a) path (tw, th) False,
               ''Wrote '' @ output_path (arg_outdir a) (arg_format a) path (tw, th) True],
              None)
           \<and> width base = tw \<and> height base = th
           \<and> width land = th \<and> height land = tw
           \<and> (land = rotate_90_expand out_im \<or> land = convert_rgb k (rotate_90_expand out_im))
           \<and> output_path (arg_outdir a) (arg_format a) path (tw, th) True =
               join (arg_outdir a)
                 (fst (splitext (basename path)) @ ''_'' @ str_int th @ ''x'' @ str_int tw
                  @ ''_landscape'' @ ''.'' @ lower (arg_format a))"
proof -
  from layout_size [OF assms(2)] have sz: "width out_im = tw" "height out_im = th" by simp_all
  show ?thesis
    using assms sz
    by (simp add: one_target_def save_variant_ok output_path_def variant_path_def Let_def
        rotate_90_expand_size convert_rgb_size)
qed

theorem landscape_variant_witness:
  "arg_landscape sample_args \<and> (\<forall>p r. encode sample_world p r = None)
   \<and> (\<exists>out_im base land.
         layout nearest_kernels (arg_mode sample_args) screenshot (1290, 2796) (0, 0, 0) = Inr out_im
         \<and> one_target nearest_kernels sample_world sample_args (0, 0, 0) ''shots/a.png'' screenshot
             (1290, 2796) =
             ([Layout ''shots/a.png'' (1290, 2796),
               Save ''./out_6p7/a_1290x2796.png'' base,
               Save ''./out_6p7/a_2796x1290_landscape.png'' land],
              [''Wrote ./out_6p7/a_1290x2796.png'', ''Wrote ./out_6p7/a_2796x1290_landscape.png''],
              None)
         \<and> width base = 1290 \<and> height base = 2796
         \<and> width land = 2796 \<and> height land = 1290)"
proof -
  have l: "arg_landscape sample_args" by (simp add: sample_args_def)
  have e: "\<forall>p r. encode sample_world p r = None" by (simp add: sample_world_def)
  have h: "1 \<le> width screenshot" "1 \<le> height screenshot" "(0::int) \<le> 1290" "(0::int) \<le> 2796"
    by (simp_all add: screenshot_def)
  obtain out_im where
    o: "layout nearest_kernels (arg_mode sample_args) screenshot (1290, 2796) (0, 0, 0) = Inr out_im"
    using fit_and_pad_ok [OF h, of nearest_kernels "(0, 0, 0)"]
    by (auto simp: layout_def sample_args_def)
  have p1: "output_path (arg_outdir sample_args) (arg_format sample_args) ''shots/a.png''
      (1290, 2796) False = ''./out_6p7/a_1290x2796.png''" by code_simp
  have p2: "output_path (arg_outdir sample_args) (arg_format sample_args) ''shots/a.png''
      (1290, 2796) True = ''./out_6p7/a_2796x1290_landscape.png''" by code_simp
  from landscape_variant [OF l o e, of "''shots/a.png''"] l e o
  show ?thesis unfolding p1 p2 by auto
qed

section \<open>Inputs discovered by the screenshot resizer\<close>

lemma endswith_append: "endswith b e \<Longrightarrow> endswith (x @ b) e"
  by (auto simp: endswith_def)

lemma join_suffix: "\<exists>x. join a b = x @ b"
  by (auto simp: join_def)

lemma is_image_name_join: "is_image_name f \<Longrightarrow> is_image_name (join d f)"
proof -
  assume h: "is_image_name f"
  obtain x where x: "join d f = x @ f" using join_suffix by blast
  from h obtain e where e: "e \<in> set image_suffixes" "endswith (lower f) e"
    by (auto simp: is_image_name_def)
  have "endswith (lower (x @ f)) e" using e(2) by (simp add: lower_def endswith_append)
  with e(1) x show ?thesis by (auto simp: is_image_name_def)
qed

lemma walk_images_names: "p \<in> set (walk_images w d) \<Longrightarrow> is_image_name p"
  by (auto simp: walk_images_def is_image_name_join)

text \<open>
  C8, as the code has it. Every path \<open>gather_inputs\<close> returns is either an input path that
  is not a directory, returned as given whatever its name, or a file found under an input
  directory whose lower-cased name ends with one of \<open>.png\<close>, \<open>.jpg\<close>, \<open>.jpeg\<close>, \<open>.heic\<close>,
  \<open>.webp\<close>; and every input path that is not a directory is returned.
\<close>

theorem gather_inputs_filtered:
  "(\<forall>p \<in> set (gather_inputs w paths). (p \<in> set paths \<and> \<not> isdir w p) \<or> is_image_name p)
   \<and> (\<forall>p \<in> set paths. \<not> isdir w p \<longrightarrow> p \<in> set (gather_inputs w paths))"
  by (induction paths) (auto dest: walk_images_names)

theorem gather_inputs_filtered_witness:
  "gather_inputs sample_world [''shots'', ''notes.txt''] = [''shots/a.png'', ''notes.txt'']
   \<and> is_image_name ''shots/a.png'' \<and> \<not> isdir sample_world ''notes.txt''
   \<and> ''notes.txt'' \<in> set (gather_inputs sample_world [''shots'', ''notes.txt''])"
proof -
  have a: "gather_inputs sample_world [''shots'', ''notes.txt''] = [''shots/a.png'', ''notes.txt'']"
    by code_simp
  have b: "\<not> isdir sample_world ''notes.txt''" by code_simp
  have c: "\<not> is_image_name ''notes.txt''" by code_simp
  from gather_inputs_filtered [of sample_world "[''shots'', ''notes.txt'']"] a b c
  show ?thesis by simp
qed

text \<open>
  C8 as stated fails: a text file named on the command line is returned by
  \<open>gather_inputs\<close>, although its name has none of the listed extensions.
\<close>

theorem gather_inputs_unfiltered_file:
  "''notes.txt'' \<in> set (gather_inputs sample_world [''notes.txt''])
   \<and> \<not> is_image_name ''notes.txt''"
  by code_simp

section \<open>Orientation and colour representation\<close>

text \<open>
  C9, as the code has it. Each strategy works on the orientation-corrected image (its
  result is the one it gives for the image already corrected, and the size it measures
  is the corrected size); what it resizes is RGBA when the source is RGBA and RGB
  otherwise. The result of crop and of stretch carries an alpha channel exactly when the
  source's mode is RGBA; the result of pad is an RGB canvas and never carries one. So in
  every strategy the result has an alpha channel only if the source has.
\<close>

theorem alpha_only_from_rgba:
  "fit_and_pad k (exif_transpose im) t bg = fit_and_pad k im t bg
   \<and> cover_and_crop k (exif_transpose im) t = cover_and_crop k im t
   \<and> stretch_resize k (exif_transpose im) t = stretch_resize k im t
   \<and> width (normalise k im) = width (exif_transpose im)
   \<and> height (normalise k im) = height (exif_transpose im)
   \<and> mode (normalise k im) = (if mode im = RGBA then RGBA else RGB)
   \<and> (\<forall>r. fit_and_pad k im t bg = Inr r \<longrightarrow> \<not> has_alpha (mode r))
   \<and> (\<forall>r. cover_and_crop k im t = Inr r \<longrightarrow> (has_alpha (mode r) \<longleftrightarrow> mode im = RGBA))
   \<and> (\<forall>r. stretch_resize k im t = Inr r \<longrightarrow> (has_alpha (mode r) \<longleftrightarrow> mode im = RGBA))"
proof -
  obtain tw th where t: "t = (tw, th)" by (cases t)
  have a: "fit_and_pad k (exif_transpose im) t bg = fit_and_pad k im t bg"
    by (simp add: fit_and_pad_def normalise_exif)
  have b: "cover_and_crop k (exif_transpose im) t = cover_and_crop k im t"
    by (simp add: cover_and_crop_def normalise_exif)
  have c: "stretch_resize k (exif_transpose im) t = stretch_resize k im t"
    by (simp add: stretch_resize_def normalise_exif)
  have d: "width (normalise k im) = width (exif_transpose im)"
      "height (normalise k im) = height (exif_transpose im)"
    by (simp_all add: normalise_def Let_def convert_rgb_size)
  have e: "\<forall>r. fit_and_pad k im t bg = Inr r \<longrightarrow> \<not> has_alpha (mode r)"
    using fit_and_pad_size [of k im tw th bg] by (auto simp: t has_alpha_def)
  have f: "\<forall>r. cover_and_crop k im t = Inr r \<longrightarrow> (has_alpha (mode r) \<longleftrightarrow> mode im = RGBA)"
    using cover_and_crop_size [of k im tw th] by (auto simp: t has_alpha_def normalise_mode)
  have g: "\<forall>r. stretch_resize k im t = Inr r \<longrightarrow> (has_alpha (mode r) \<longleftrightarrow> mode im = RGBA)"
    using stretch_resize_size [of k im tw th] by (auto simp: t has_alpha_def normalise_mode)
  from a b c d e f g normalise_mode [of k im] show ?thesis by blast
qed

theorem alpha_only_from_rgba_witness:
  "(\<exists>r. fit_and_pad nearest_kernels banner (1290, 2796) (0, 0, 0) = Inr r \<and> \<not> has_alpha (mode r))
   \<and> (\<exists>r. cover_and_crop nearest_kernels banner (1290, 2796) = Inr r \<and> has_alpha (mode r))
   \<and> (\<exists>r. stretch_resize nearest_kernels banner (1290, 2796) = Inr r \<and> has_alpha (mode r))
   \<and> mode banner = RGBA
   \<and> width (normalise nearest_kernels banner) = 400
   \<and> height (normalise nearest_kernels banner) = 100"
proof -
  have h: "1 \<le> width banner" "1 \<le> height banner" "(0::int) \<le> 1290" "(0::int) \<le> 2796"
    by (simp_all add: banner_def)
  have h': "(1::int) \<le> 1290" "(1::int) \<le> 2796" by simp_all
  have m: "mode banner = RGBA" by (simp add: banner_def)
  have w: "width (exif_transpose banner) = 400" "height (exif_transpose banner) = 100"
    by (simp_all add: banner_def exif_transpose_def exif_method_def)
  from fit_and_pad_ok [OF h, of nearest_kernels "(0, 0, 0)"]
    cover_and_crop_ok [OF h, of nearest_kernels]
    stretch_resize_ok [OF h', of nearest_kernels banner]
    alpha_only_from_rgba [of nearest_kernels banner "(1290, 2796)" "(0, 0, 0)"] m w
  show ?thesis by auto
qed

text \<open>
  C9 as stated fails: a translucent (RGBA) source padded to a target comes out without
  an alpha channel.
\<close>

theorem pad_drops_alpha:
  "has_alpha (mode banner)
   \<and> \<not> isl (fit_and_pad nearest_kernels banner (1290, 2796) (0, 0, 0))
   \<and> \<not> has_alpha (mode (projr (fit_and_pad nearest_kernels banner (1290, 2796) (0, 0, 0))))"
  by code_simp

section \<open>Sizes are not range-checked\<close>



end
